theory Spec2Isabelle
  imports Main
begin

section \<open>The event loop of ks (KsEventLoop.cpp)\<close>

text \<open>
  The loop serialises posted work onto one consumer thread. Every member function that
  touches the loop's fields does so inside a section guarded by \<open>m_mutex\<close>; each such
  section is one atomic operation on the state below. A handler that the service runs is
  taken as one operation as well, although \<open>TimeoutHandler\<close> reads the \<open>canceled\<close> flag
  without the mutex. The blocking call \<open>m_asio_service.run()\<close> between the two guarded
  sections of \<open>Run\<close> is the interleaving of \<open>dispatch\<close> steps with the operations of
  other threads.
\<close>

subsection \<open>Data\<close>

type_synonym Id = nat
type_synonym Milliseconds = int

text \<open>The address of a \<open>TimerInfo\<close> shared between the registry and its handlers.\<close>
type_synonym addr = nat

text \<open>The identity of a logical \<open>ks::Timer\<close>, as held by a \<open>weak_ptr<Timer>\<close>.\<close>
type_synonym timer_ref = nat

text \<open>\<open>std::thread::id\<close>: the identity of a thread, or of no thread.\<close>
datatype thread_id = no_thread | thread nat

text \<open>
  Modelled from the spec: the header that declares \<open>m_thread_id_null\<close> is missing; the
  spec calls it the null sentinel to which the owning thread is cleared on Stop.
\<close>
definition m_thread_id_null :: thread_id where
  "m_thread_id_null = no_thread"

datatype ErrorLevel = WARN | FATAL

datatype exception = EventLoopCalledFromWrongThread | EventLoopInactive

text \<open>The error level each exception's constructor passes to \<open>Exception\<close>.\<close>
fun level :: "exception \<Rightarrow> ErrorLevel" where
  "level EventLoopCalledFromWrongThread = FATAL"
| "level EventLoopInactive = WARN"

text \<open>How a call ends: it returns, or it throws with the state as it is at the throw.\<close>
datatype outcome = Returned | Threw exception

text \<open>\<open>asio::error_code\<close>: the handler tells \<open>operation_aborted\<close> from all others.\<close>
datatype error_code = success | operation_aborted | other_error nat

text \<open>The condition variables of the loop.\<close>
datatype cv = m_cv_started | m_cv_running | m_cv_stopped

text \<open>\<open>asio::steady_timer\<close>: the expiry it was last given and its pending waits.\<close>
record steady_timer =
  expiry :: Milliseconds
  waits :: nat

record TimerInfo =
  timer_id :: Id
  timer :: timer_ref
  interval_ms :: Milliseconds
  asio_timer :: steady_timer
  repeat :: bool
  canceled :: bool

text \<open>The part of \<open>ks::Timer\<close> the loop writes.\<close>
record Timer =
  m_active :: bool

text \<open>The event kinds \<open>PostEvent\<close> and \<open>EventHandler\<close> distinguish.\<close>
datatype Event =
    SlotEvent nat
  | BlockingSlotEvent nat
  | StartTimerEvent Id timer_ref Milliseconds bool
  | StopTimerEvent Id

text \<open>
  A completion handler queued on the \<open>io_service\<close>: a \<open>TimeoutHandler\<close> with the error
  code of its wait, a \<open>TaskHandler\<close>, an \<open>EventHandler\<close>, or the bound call of \<open>Stop\<close>.
\<close>
datatype work =
    TimeoutWork addr error_code
  | TaskWork nat
  | EventWork Event
  | StopWork

text \<open>
  \<open>asio::io_service\<close>: its stopped condition, its ready handlers in FIFO order and the
  number of live \<open>io_service::work\<close> objects.
\<close>
record io_service =
  stopped :: bool
  ready :: "work list"
  work_tokens :: nat

text \<open>The calls on collaborators whose bodies are outside the loop, in program order.\<close>
datatype effect =
    Notify_all cv
  | Cancel addr
  | Expires_from_now addr Milliseconds
  | Async_wait addr
  | Emit timer_ref
  | Invoke_task nat
  | Invoke_slot nat

text \<open>
  The fields of \<open>EventLoop\<close> and of its \<open>Impl\<close>, the store of \<open>TimerInfo\<close> objects
  (\<open>make_shared\<close> takes the next address), the live logical timers (a destroyed timer is
  absent, so its \<open>weak_ptr\<close> does not lock), and the log of effects.
\<close>
record state =
  m_id :: Id
  m_started :: bool
  m_running :: bool
  m_thread_id :: thread_id
  m_list_timers :: "Id \<rightharpoonup> addr"
  m_asio_service :: io_service
  m_asio_work :: bool
  timerinfos :: "addr \<Rightarrow> TimerInfo"
  next_addr :: addr
  timers :: "timer_ref \<rightharpoonup> Timer"
  log :: "effect list"

subsection \<open>The reactor primitive\<close>

text \<open>
  Modelled from the spec: the sources of asio (ks/thirdparty/asio) are missing. The spec
  gives the reactor primitive a FIFO work queue with \<open>post\<close>, \<open>stop\<close>, \<open>reset\<close>
  (which clears the stopped condition), \<open>poll\<close> (one non-blocking drain of the ready
  work), and per timer \<open>arm\<close>, \<open>rearm\<close> and \<open>cancel\<close>; a cancelled wait completes
  with \<open>operation_aborted\<close>.
\<close>

definition post :: "work \<Rightarrow> state \<Rightarrow> state" where
  "post w s = s\<lparr>m_asio_service := (m_asio_service s)\<lparr>ready := ready (m_asio_service s) @ [w]\<rparr>\<rparr>"

text \<open>Every pending wait of the timer at \<open>a\<close> completes with the error code \<open>ec\<close>.\<close>
definition complete_waits :: "addr \<Rightarrow> error_code \<Rightarrow> state \<Rightarrow> state" where
  "complete_waits a ec s =
     (let ti = timerinfos s a
      in s\<lparr>m_asio_service := (m_asio_service s)
              \<lparr>ready := ready (m_asio_service s) @ replicate (waits (asio_timer ti)) (TimeoutWork a ec)\<rparr>,
           timerinfos := (timerinfos s)(a := ti\<lparr>asio_timer := (asio_timer ti)\<lparr>waits := 0\<rparr>\<rparr>)\<rparr>)"

definition cancel :: "addr \<Rightarrow> state \<Rightarrow> state" where
  "cancel a s =
     (let s1 = complete_waits a operation_aborted s
      in s1\<lparr>log := log s1 @ [Cancel a]\<rparr>)"

definition expires_from_now :: "addr \<Rightarrow> Milliseconds \<Rightarrow> state \<Rightarrow> state" where
  "expires_from_now a d s =
     (let s1 = complete_waits a operation_aborted s;
          ti = timerinfos s1 a
      in s1\<lparr>timerinfos := (timerinfos s1)(a := ti\<lparr>asio_timer := (asio_timer ti)\<lparr>expiry := d\<rparr>\<rparr>),
            log := log s1 @ [Expires_from_now a d]\<rparr>)"

definition async_wait :: "addr \<Rightarrow> state \<Rightarrow> state" where
  "async_wait a s =
     (let ti = timerinfos s a
      in s\<lparr>timerinfos := (timerinfos s)(a := ti\<lparr>asio_timer := (asio_timer ti)\<lparr>waits := Suc (waits (asio_timer ti))\<rparr>\<rparr>),
           log := log s @ [Async_wait a]\<rparr>)"

text \<open>The time of the timer at \<open>a\<close> elapses: its pending waits complete with success.\<close>
definition timer_expire :: "addr \<Rightarrow> state \<Rightarrow> state" where
  "timer_expire a s = complete_waits a success s"

subsection \<open>TimeoutHandler, TaskHandler, EventHandler\<close>

definition TimeoutHandler :: "addr \<Rightarrow> error_code \<Rightarrow> state \<Rightarrow> state" where
  "TimeoutHandler a ec s =
     (let ti = timerinfos s a
      in if ec = operation_aborted \<or> canceled ti then s
         else case timers s (timer ti) of
           None \<Rightarrow> s
         | Some tm \<Rightarrow>
             let s1 = (if repeat ti
                       then async_wait a (expires_from_now a (interval_ms ti) s)
                       else s\<lparr>timers := (timers s)(timer ti \<mapsto> tm\<lparr>m_active := False\<rparr>)\<rparr>)
             in s1\<lparr>log := log s1 @ [Emit (timer ti)]\<rparr>)"

definition TaskHandler :: "nat \<Rightarrow> state \<Rightarrow> state" where
  "TaskHandler task s = s\<lparr>log := log s @ [Invoke_task task]\<rparr>"

fun EventHandler :: "Event \<Rightarrow> state \<Rightarrow> state" where
  "EventHandler (SlotEvent f) s = s\<lparr>log := log s @ [Invoke_slot f]\<rparr>"
| "EventHandler (BlockingSlotEvent f) s = s\<lparr>log := log s @ [Invoke_slot f]\<rparr>"
| "EventHandler _ s = s"

subsection \<open>EventLoop\<close>

text \<open>
  The constructor, given the id from \<open>genId\<close>, the application's logical timers and the
  store before any allocation. The default-constructed \<open>m_thread_id\<close> is the id of no
  thread.
\<close>
definition EventLoop :: "Id \<Rightarrow> (timer_ref \<rightharpoonup> Timer) \<Rightarrow> (addr \<Rightarrow> TimerInfo) \<Rightarrow> state" where
  "EventLoop i tms mem =
     \<lparr>m_id = i, m_started = False, m_running = False, m_thread_id = no_thread,
      m_list_timers = Map.empty,
      m_asio_service = \<lparr>stopped = False, ready = [], work_tokens = 0\<rparr>,
      m_asio_work = False,
      timerinfos = mem, next_addr = 0, timers = tms, log = []\<rparr>"

definition GetThreadId :: "state \<Rightarrow> thread_id" where
  "GetThreadId s = m_thread_id s"

definition GetStarted :: "state \<Rightarrow> bool" where
  "GetStarted s = m_started s"

definition GetRunning :: "state \<Rightarrow> bool" where
  "GetRunning s = m_running s"

definition setActiveThread :: "thread_id \<Rightarrow> state \<Rightarrow> state" where
  "setActiveThread calling_thread_id s = s\<lparr>m_thread_id := calling_thread_id\<rparr>"

definition unsetActiveThread :: "state \<Rightarrow> state" where
  "unsetActiveThread s = s\<lparr>m_thread_id := m_thread_id_null\<rparr>"

definition ensureActiveThread :: "thread_id \<Rightarrow> state \<Rightarrow> outcome" where
  "ensureActiveThread calling_thread_id s =
     (if m_thread_id s \<noteq> calling_thread_id then Threw EventLoopCalledFromWrongThread
      else Returned)"

definition ensureActiveLoop :: "state \<Rightarrow> outcome" where
  "ensureActiveLoop s =
     (if \<not> (m_started s \<and> m_asio_work s) then Threw EventLoopInactive else Returned)"

definition Start :: "thread_id \<Rightarrow> state \<Rightarrow> state" where
  "Start c s =
     (if m_started s \<or> m_asio_work s then s
      else
        let s1 = s\<lparr>m_asio_service := (m_asio_service s)\<lparr>stopped := False\<rparr>\<rparr>;
            s2 = s1\<lparr>m_asio_service := (m_asio_service s1)
                       \<lparr>work_tokens := Suc (work_tokens (m_asio_service s1))\<rparr>,
                    m_asio_work := True\<rparr>;
            s3 = setActiveThread c s2;
            s4 = s3\<lparr>m_started := True\<rparr>
        in s4\<lparr>log := log s4 @ [Notify_all m_cv_started]\<rparr>)"

text \<open>The first guarded section of \<open>Run\<close>; an exception leaves \<open>Run\<close> from here.\<close>
definition Run_begin :: "thread_id \<Rightarrow> state \<Rightarrow> outcome \<times> state" where
  "Run_begin c s =
     (case ensureActiveLoop s of
        Threw e \<Rightarrow> (Threw e, s)
      | Returned \<Rightarrow>
          (case ensureActiveThread c s of
             Threw e \<Rightarrow> (Threw e, s)
           | Returned \<Rightarrow>
               (Returned, s\<lparr>m_running := True, log := log s @ [Notify_all m_cv_running]\<rparr>)))"

text \<open>The guarded section of \<open>Run\<close> after \<open>m_asio_service.run()\<close> has returned.\<close>
definition Run_end :: "state \<Rightarrow> state" where
  "Run_end s = s\<lparr>m_running := False\<rparr>"

definition Stop :: "state \<Rightarrow> state" where
  "Stop s =
     (let s1 = s\<lparr>m_asio_service := (m_asio_service s)
                    \<lparr>work_tokens := (if m_asio_work s then work_tokens (m_asio_service s) - 1
                                     else work_tokens (m_asio_service s))\<rparr>,
                 m_asio_work := False\<rparr>;
          s2 = s1\<lparr>m_asio_service := (m_asio_service s1)\<lparr>stopped := True\<rparr>\<rparr>;
          s3 = unsetActiveThread s2;
          s4 = s3\<lparr>m_started := False\<rparr>
      in s4\<lparr>log := log s4 @ [Notify_all m_cv_stopped]\<rparr>)"

definition startTimer :: "Id \<Rightarrow> timer_ref \<Rightarrow> Milliseconds \<Rightarrow> bool \<Rightarrow> state \<Rightarrow> state" where
  "startTimer i t d r s =
     (case timers s t of
        None \<Rightarrow> s
      | Some tm \<Rightarrow>
          let s1 = (case m_list_timers s i of
                      None \<Rightarrow> s
                    | Some a \<Rightarrow>
                        let c1 = cancel a s;
                            c2 = c1\<lparr>timerinfos := (timerinfos c1)(a := (timerinfos c1 a)\<lparr>canceled := True\<rparr>)\<rparr>
                        in c2\<lparr>m_list_timers := (m_list_timers c2)(i := None)\<rparr>);
              a' = next_addr s1;
              s2 = s1\<lparr>timerinfos := (timerinfos s1)
                          (a' := \<lparr>timer_id = i, timer = t, interval_ms = d,
                                  asio_timer = \<lparr>expiry = d, waits = 0\<rparr>,
                                  repeat = r, canceled = False\<rparr>),
                      next_addr := Suc a'\<rparr>;
              it = (case m_list_timers s2 i of None \<Rightarrow> a' | Some b \<Rightarrow> b);
              s3 = s2\<lparr>m_list_timers := (m_list_timers s2)(i \<mapsto> it)\<rparr>;
              s4 = s3\<lparr>timers := (timers s3)(t \<mapsto> tm\<lparr>m_active := True\<rparr>)\<rparr>
          in async_wait it s4)"

definition stopTimer :: "Id \<Rightarrow> state \<Rightarrow> state" where
  "stopTimer i s =
     (case m_list_timers s i of
        None \<Rightarrow> s
      | Some a \<Rightarrow>
          let t = timer (timerinfos s a);
              s1 = (case timers s t of
                      None \<Rightarrow> s
                    | Some tm \<Rightarrow> s\<lparr>timers := (timers s)(t \<mapsto> tm\<lparr>m_active := False\<rparr>)\<rparr>);
              s2 = cancel a s1;
              s3 = s2\<lparr>timerinfos := (timerinfos s2)(a := (timerinfos s2 a)\<lparr>canceled := True\<rparr>)\<rparr>
          in s3\<lparr>m_list_timers := (m_list_timers s3)(i := None)\<rparr>)"

fun PostEvent :: "Event \<Rightarrow> state \<Rightarrow> state" where
  "PostEvent (StartTimerEvent i t d r) s = startTimer i t d r s"
| "PostEvent (StopTimerEvent i) s = stopTimer i s"
| "PostEvent ev s = post (EventWork ev) s"

definition PostTask :: "thread_id \<Rightarrow> nat \<Rightarrow> state \<Rightarrow> state" where
  "PostTask c task s =
     (if c = GetThreadId s then s\<lparr>log := log s @ [Invoke_task task]\<rparr>
      else post (TaskWork task) s)"

definition PostCallback :: "nat \<Rightarrow> state \<Rightarrow> state" where
  "PostCallback callback s = post (EventWork (SlotEvent callback)) s"

definition PostStopEvent :: "state \<Rightarrow> state" where
  "PostStopEvent s = post StopWork s"

subsection \<open>Running the ready handlers\<close>

fun exec_work :: "work \<Rightarrow> state \<Rightarrow> state" where
  "exec_work (TimeoutWork a ec) s = TimeoutHandler a ec s"
| "exec_work (TaskWork task) s = TaskHandler task s"
| "exec_work (EventWork ev) s = EventHandler ev s"
| "exec_work StopWork s = Stop s"

text \<open>One turn of the service: the first ready handler runs, unless the service is stopped.\<close>
definition dispatch :: "state \<Rightarrow> state" where
  "dispatch s =
     (if stopped (m_asio_service s) then s
      else case ready (m_asio_service s) of
        [] \<Rightarrow> s
      | w # q \<Rightarrow> exec_work w (s\<lparr>m_asio_service := (m_asio_service s)\<lparr>ready := q\<rparr>\<rparr>))"

text \<open>A ready handler of a wait that was not cancelled.\<close>
definition is_fire :: "work \<Rightarrow> bool" where
  "is_fire w = (case w of TimeoutWork a ec \<Rightarrow> ec \<noteq> operation_aborted | _ \<Rightarrow> False)"

text \<open>
  \<open>poll()\<close>: the ready handlers run until none is left or the service is stopped. A
  handler may make further handlers ready (the aborted waits of a timer it re-arms).
\<close>
function poll :: "state \<Rightarrow> state" where
  "poll s =
     (if stopped (m_asio_service s) then s
      else case ready (m_asio_service s) of
        [] \<Rightarrow> s
      | w # q \<Rightarrow> poll (exec_work w (s\<lparr>m_asio_service := (m_asio_service s)\<lparr>ready := q\<rparr>\<rparr>)))"
  by pat_completeness auto
termination
proof (relation "measures [\<lambda>s. length (filter is_fire (ready (m_asio_service s))),
                           \<lambda>s. length (ready (m_asio_service s))]", goal_cases)
  case 1
  show ?case by simp
next
  case (2 s w q)
  let ?s = "s\<lparr>m_asio_service := (m_asio_service s)\<lparr>ready := q\<rparr>\<rparr>"
  have fire: "\<exists>k. ready (m_asio_service (TimeoutHandler a ec ?s)) =
                 q @ replicate k (TimeoutWork a operation_aborted)" for a ec
    by (auto simp: TimeoutHandler_def Let_def async_wait_def expires_from_now_def
        complete_waits_def split: option.splits intro: exI[of _ 0])
  have "ready (m_asio_service (exec_work w ?s)) = q \<or>
        (is_fire w \<and> (\<exists>a k. ready (m_asio_service (exec_work w ?s)) =
                         q @ replicate k (TimeoutWork a operation_aborted)))"
  proof (cases w)
    case (TimeoutWork a ec)
    then show ?thesis
      using fire[of a ec] by (cases ec) (auto simp: is_fire_def TimeoutHandler_def)
  next
    case (TaskWork n)
    then show ?thesis by (simp add: TaskHandler_def)
  next
    case (EventWork ev)
    then show ?thesis by (cases ev) simp_all
  next
    case StopWork
    then show ?thesis by (simp add: Stop_def Let_def unsetActiveThread_def)
  qed
  with 2(2) show ?case
    by (auto simp: is_fire_def)
qed

definition ProcessEvents :: "thread_id \<Rightarrow> state \<Rightarrow> outcome \<times> state" where
  "ProcessEvents c s =
     (case ensureActiveLoop s of
        Threw e \<Rightarrow> (Threw e, s)
      | Returned \<Rightarrow>
          (case ensureActiveThread c s of
             Threw e \<Rightarrow> (Threw e, s)
           | Returned \<Rightarrow> (Returned, poll s)))"

subsection \<open>Interleavings\<close>

text \<open>
  One atomic operation of some thread: a member function's guarded section called from a
  thread \<open>thread n\<close>, a turn of the service, the expiry of an allocated timer, or the
  application destroying a logical timer. Any operation may follow any other, which
  covers every interleaving the threads of a program can produce.
\<close>
inductive step :: "state \<Rightarrow> state \<Rightarrow> bool" where
  Start: "step s (Start (thread n) s)"
| Run_begin: "step s (snd (Run_begin (thread n) s))"
| Run_end: "step s (Run_end s)"
| Stop: "step s (Stop s)"
| ProcessEvents: "step s (snd (ProcessEvents (thread n) s))"
| PostEvent: "step s (PostEvent ev s)"
| PostTask: "step s (PostTask (thread n) task s)"
| PostCallback: "step s (PostCallback callback s)"
| PostStopEvent: "step s (PostStopEvent s)"
| dispatch: "step s (dispatch s)"
| expire: "a < next_addr s \<Longrightarrow> step s (timer_expire a s)"
| destroy: "step s (s\<lparr>timers := (timers s)(t := None)\<rparr>)"

text \<open>The states a constructed loop can be in.\<close>
inductive reachable :: "state \<Rightarrow> bool" where
  init: "reachable (EventLoop i tms mem)"
| step: "reachable s \<Longrightarrow> step s s' \<Longrightarrow> reachable s'"

text \<open>
  The registry holds exactly the allocated \<open>TimerInfo\<close> objects that are not cancelled,
  each under its own timer id.
\<close>
definition registry_ok :: "state \<Rightarrow> bool" where
  "registry_ok s \<longleftrightarrow>
     (\<forall>i a. m_list_timers s i = Some a \<longrightarrow>
          a < next_addr s \<and> timer_id (timerinfos s a) = i \<and> \<not> canceled (timerinfos s a)) \<and>
     (\<forall>a. a < next_addr s \<and> \<not> canceled (timerinfos s a) \<longrightarrow>
          m_list_timers s (timer_id (timerinfos s a)) = Some a)"

text \<open>The started flag and the keep-alive token go together.\<close>
definition keepalive_ok :: "state \<Rightarrow> bool" where
  "keepalive_ok s \<longleftrightarrow>
     m_started s = m_asio_work s \<and>
     work_tokens (m_asio_service s) = (if m_asio_work s then 1 else 0)"

text \<open>A running loop is started, or its service has been stopped.\<close>
definition running_ok :: "state \<Rightarrow> bool" where
  "running_ok s \<longleftrightarrow> (m_running s \<longrightarrow> m_started s \<or> stopped (m_asio_service s))"

text \<open>The \<open>TimerInfo\<close> at \<open>a\<close> is allocated and its cancellation flag is set.\<close>
definition retired :: "addr \<Rightarrow> state \<Rightarrow> bool" where
  "retired a s \<longleftrightarrow> a < next_addr s \<and> canceled (timerinfos s a)"

subsection \<open>A loop to run the operations on\<close>

definition mem0 :: "addr \<Rightarrow> TimerInfo" where
  "mem0 a = \<lparr>timer_id = 0, timer = 0, interval_ms = 0, asio_timer = \<lparr>expiry = 0, waits = 0\<rparr>,
            repeat = False, canceled = False\<rparr>"

text \<open>The application owns one logical timer, number 7.\<close>
definition app_timers :: "timer_ref \<rightharpoonup> Timer" where
  "app_timers t = (if t = 7 then Some \<lparr>m_active = False\<rparr> else None)"

definition loop0 :: state where
  "loop0 = EventLoop 1 app_timers mem0"

text \<open>Thread 1 has started the loop.\<close>
definition started0 :: state where
  "started0 = Start (thread 1) loop0"

text \<open>A repeating timer with id 5 and an interval of 100 ms is armed for timer 7.\<close>
definition armed0 :: state where
  "armed0 = PostEvent (StartTimerEvent 5 7 100 True) started0"

text \<open>The same, as a single-shot timer.\<close>
definition armed1 :: state where
  "armed1 = PostEvent (StartTimerEvent 5 7 100 False) started0"

text \<open>A callback is queued on the started loop.\<close>
definition posted0 :: state where
  "posted0 = PostCallback 3 started0"

text \<open>Thread 1 has entered \<open>Run\<close> on the started loop.\<close>
definition running0 :: state where
  "running0 = snd (Run_begin (thread 1) started0)"

text \<open>A callback is queued on the loop before any \<open>Start\<close>.\<close>
definition idle0 :: state where
  "idle0 = PostCallback 3 loop0"

text \<open>Thread 1 has entered \<open>Run\<close> with the repeating timer armed.\<close>
definition armed_running0 :: state where
  "armed_running0 = snd (Run_begin (thread 1) armed0)"

section \<open>Invariants of the reachable states\<close>

lemmas prim_defs = post_def complete_waits_def cancel_def expires_from_now_def async_wait_def
  timer_expire_def Let_def

lemmas op_defs = TimeoutHandler_def TaskHandler_def Start_def Run_begin_def Run_end_def Stop_def
  startTimer_def stopTimer_def PostTask_def PostCallback_def PostStopEvent_def
  setActiveThread_def unsetActiveThread_def ensureActiveThread_def ensureActiveLoop_def
  GetThreadId_def

declare poll.simps [simp del]

lemma keepalive_exec_work: "keepalive_ok s \<Longrightarrow> keepalive_ok (exec_work w s)"
  apply (cases w)
  subgoal for a ec by (auto simp: keepalive_ok_def prim_defs op_defs split: option.splits)
  subgoal by (auto simp: keepalive_ok_def prim_defs op_defs)
  subgoal for ev by (cases ev) (auto simp: keepalive_ok_def prim_defs op_defs)
  subgoal by (auto simp: keepalive_ok_def prim_defs op_defs)
  done

lemma keepalive_pop:
  "keepalive_ok (s\<lparr>m_asio_service := (m_asio_service s)\<lparr>ready := q\<rparr>\<rparr>) = keepalive_ok s"
  by (simp add: keepalive_ok_def)

lemma keepalive_dispatch: "keepalive_ok s \<Longrightarrow> keepalive_ok (dispatch s)"
  unfolding dispatch_def
  by (simp split: list.splits add: keepalive_exec_work keepalive_pop)

lemma running_pop:
  "running_ok (s\<lparr>m_asio_service := (m_asio_service s)\<lparr>ready := q\<rparr>\<rparr>) = running_ok s"
  by (simp add: running_ok_def)

lemma running_exec_work: "running_ok s \<Longrightarrow> running_ok (exec_work w s)"
  apply (cases w)
  subgoal for a ec by (auto simp: running_ok_def prim_defs op_defs split: option.splits)
  subgoal by (auto simp: running_ok_def prim_defs op_defs)
  subgoal for ev by (cases ev) (auto simp: running_ok_def prim_defs op_defs)
  subgoal by (auto simp: running_ok_def prim_defs op_defs)
  done

lemma running_dispatch: "running_ok s \<Longrightarrow> running_ok (dispatch s)"
  unfolding dispatch_def
  by (simp split: list.splits add: running_exec_work running_pop)

lemma poll_preserves:
  assumes "\<And>s. P s \<Longrightarrow> P (dispatch s)"
  shows "P s \<Longrightarrow> P (poll s)"
proof (induction s rule: poll.induct)
  case (1 s)
  show ?case
  proof (cases "stopped (m_asio_service s)")
    case True
    with 1(2) show ?thesis by (simp add: poll.simps[of s])
  next
    case ns: False
    show ?thesis
    proof (cases "ready (m_asio_service s)")
      case Nil
      with ns 1(2) show ?thesis by (simp add: poll.simps[of s])
    next
      case (Cons w q)
      let ?s = "exec_work w (s\<lparr>m_asio_service := (m_asio_service s)\<lparr>ready := q\<rparr>\<rparr>)"
      have d: "dispatch s = ?s" using ns Cons by (simp add: dispatch_def)
      have "P ?s" using assms[OF 1(2)] d by simp
      from 1(1)[OF ns Cons this] have "P (poll ?s)" .
      moreover have "poll s = poll ?s" using ns Cons by (simp add: poll.simps[of s])
      ultimately show ?thesis by simp
    qed
  qed
qed


lemma keepalive_step: "step s s' \<Longrightarrow> keepalive_ok s \<Longrightarrow> keepalive_ok s'"
proof (induction rule: step.induct)
  case (ProcessEvents s n)
  have "keepalive_ok (poll s)"
    by (rule poll_preserves[where P=keepalive_ok]) (simp_all add: keepalive_dispatch ProcessEvents)
  with ProcessEvents show ?case
    by (simp add: ProcessEvents_def split: outcome.splits)
next
  case (PostEvent s ev)
  then show ?case
    by (cases ev) (auto simp: keepalive_ok_def prim_defs op_defs split: option.splits)
next
  case (dispatch s)
  then show ?case by (rule keepalive_dispatch)
qed (auto simp: keepalive_ok_def prim_defs op_defs split: option.splits)

lemma keepalive_reachable: "reachable s \<Longrightarrow> keepalive_ok s"
proof (induction rule: reachable.induct)
  case (init i tms mem)
  show ?case by (simp add: keepalive_ok_def EventLoop_def)
next
  case (step s s')
  then show ?case by (simp add: keepalive_step)
qed

lemma running_step: "step s s' \<Longrightarrow> running_ok s \<Longrightarrow> running_ok s'"
proof (induction rule: step.induct)
  case (ProcessEvents s n)
  have "running_ok (poll s)"
    by (rule poll_preserves[where P=running_ok]) (simp_all add: running_dispatch ProcessEvents)
  with ProcessEvents show ?case
    by (simp add: ProcessEvents_def split: outcome.splits)
next
  case (PostEvent s ev)
  then show ?case
    by (cases ev) (auto simp: running_ok_def prim_defs op_defs split: option.splits)
next
  case (dispatch s)
  then show ?case by (rule running_dispatch)
qed (auto simp: running_ok_def prim_defs op_defs split: option.splits)

lemma running_reachable: "reachable s \<Longrightarrow> running_ok s"
proof (induction rule: reachable.induct)
  case (init i tms mem)
  show ?case by (simp add: running_ok_def EventLoop_def)
next
  case (step s s')
  then show ?case by (simp add: running_step)
qed

subsection \<open>The registry\<close>

lemma prim_frame [simp]:
  "next_addr (complete_waits a ec s) = next_addr s"
  "m_list_timers (complete_waits a ec s) = m_list_timers s"
  "timers (complete_waits a ec s) = timers s"
  "log (complete_waits a ec s) = log s"
  "canceled (timerinfos (complete_waits a ec s) b) = canceled (timerinfos s b)"
  "timer_id (timerinfos (complete_waits a ec s) b) = timer_id (timerinfos s b)"
  "timer (timerinfos (complete_waits a ec s) b) = timer (timerinfos s b)"
  "next_addr (cancel a s) = next_addr s"
  "m_list_timers (cancel a s) = m_list_timers s"
  "timers (cancel a s) = timers s"
  "canceled (timerinfos (cancel a s) b) = canceled (timerinfos s b)"
  "timer_id (timerinfos (cancel a s) b) = timer_id (timerinfos s b)"
  "timer (timerinfos (cancel a s) b) = timer (timerinfos s b)"
  "next_addr (expires_from_now a d s) = next_addr s"
  "m_list_timers (expires_from_now a d s) = m_list_timers s"
  "timers (expires_from_now a d s) = timers s"
  "canceled (timerinfos (expires_from_now a d s) b) = canceled (timerinfos s b)"
  "timer_id (timerinfos (expires_from_now a d s) b) = timer_id (timerinfos s b)"
  "timer (timerinfos (expires_from_now a d s) b) = timer (timerinfos s b)"
  "next_addr (async_wait a s) = next_addr s"
  "m_list_timers (async_wait a s) = m_list_timers s"
  "timers (async_wait a s) = timers s"
  "canceled (timerinfos (async_wait a s) b) = canceled (timerinfos s b)"
  "timer_id (timerinfos (async_wait a s) b) = timer_id (timerinfos s b)"
  "timer (timerinfos (async_wait a s) b) = timer (timerinfos s b)"
  by (simp_all add: prim_defs)


lemma startTimer_dead [simp]: "timers s t = None \<Longrightarrow> startTimer i t d r s = s"
  by (simp add: startTimer_def)

lemma startTimer_next_addr:
  "timers s t = Some tm \<Longrightarrow> next_addr (startTimer i t d r s) = Suc (next_addr s)"
  by (simp add: startTimer_def Let_def split: option.splits)

lemma startTimer_registry:
  "timers s t = Some tm \<Longrightarrow>
   m_list_timers (startTimer i t d r s) = (m_list_timers s)(i \<mapsto> next_addr s)"
  by (simp add: startTimer_def Let_def split: option.splits)

lemma startTimer_canceled:
  "timers s t = Some tm \<Longrightarrow>
   canceled (timerinfos (startTimer i t d r s) b) =
     (b \<noteq> next_addr s \<and> (m_list_timers s i = Some b \<or> canceled (timerinfos s b)))"
  by (simp add: startTimer_def Let_def async_wait_def split: option.splits)

lemma startTimer_timer_id:
  "timers s t = Some tm \<Longrightarrow>
   timer_id (timerinfos (startTimer i t d r s) b) =
     (if b = next_addr s then i else timer_id (timerinfos s b))"
  by (simp add: startTimer_def Let_def async_wait_def split: option.splits)


lemma registry_startTimer:
  assumes ok: "registry_ok s"
  shows "registry_ok (startTimer i t d r s)"
proof (cases "timers s t")
  case None
  with ok show ?thesis by simp
next
  case (Some tm)
  note p = startTimer_next_addr[OF Some] startTimer_registry[OF Some]
    startTimer_canceled[OF Some] startTimer_timer_id[OF Some]
  from ok have reg: "\<And>j a. m_list_timers s j = Some a \<Longrightarrow>
      a < next_addr s \<and> timer_id (timerinfos s a) = j \<and> \<not> canceled (timerinfos s a)"
    and live: "\<And>a. a < next_addr s \<Longrightarrow> \<not> canceled (timerinfos s a) \<Longrightarrow>
      m_list_timers s (timer_id (timerinfos s a)) = Some a"
    by (simp_all add: registry_ok_def)
  have 1: "a < next_addr (startTimer i t d r s) \<and> timer_id (timerinfos (startTimer i t d r s) a) = j
           \<and> \<not> canceled (timerinfos (startTimer i t d r s) a)"
    if "m_list_timers (startTimer i t d r s) j = Some a" for j a
  proof (cases "j = i")
    case True
    with that have "a = next_addr s" by (simp add: p)
    with True show ?thesis by (simp add: p)
  next
    case False
    with that have m: "m_list_timers s j = Some a" by (simp add: p)
    from reg[OF m] have "a < next_addr s" "timer_id (timerinfos s a) = j"
      "\<not> canceled (timerinfos s a)" by simp_all
    moreover have "m_list_timers s i \<noteq> Some a"
    proof
      assume "m_list_timers s i = Some a"
      from reg[OF this] reg[OF m] False show False by simp
    qed
    ultimately show ?thesis by (simp add: p)
  qed
  have 2: "m_list_timers (startTimer i t d r s) (timer_id (timerinfos (startTimer i t d r s) a)) = Some a"
    if "a < next_addr (startTimer i t d r s)" "\<not> canceled (timerinfos (startTimer i t d r s) a)" for a
  proof (cases "a = next_addr s")
    case True
    then show ?thesis by (simp add: p)
  next
    case False
    with that have lt: "a < next_addr s" and nc: "\<not> canceled (timerinfos s a)"
      and ni: "m_list_timers s i \<noteq> Some a"
      by (simp_all add: p)
    from live[OF lt nc] have m: "m_list_timers s (timer_id (timerinfos s a)) = Some a" .
    with ni have "timer_id (timerinfos s a) \<noteq> i" by auto
    with m False show ?thesis by (simp add: p)
  qed
  show ?thesis unfolding registry_ok_def using 1 2 by blast
qed


lemma stopTimer_absent [simp]: "m_list_timers s i = None \<Longrightarrow> stopTimer i s = s"
  by (simp add: stopTimer_def)

lemma stopTimer_next_addr: "next_addr (stopTimer i s) = next_addr s"
  by (simp add: stopTimer_def Let_def split: option.splits)

lemma stopTimer_registry: "m_list_timers (stopTimer i s) = (m_list_timers s)(i := None)"
  by (auto simp add: stopTimer_def Let_def split: option.splits)

lemma stopTimer_canceled:
  "canceled (timerinfos (stopTimer i s) b) =
     (m_list_timers s i = Some b \<or> canceled (timerinfos s b))"
  by (simp add: stopTimer_def Let_def split: option.splits)

lemma stopTimer_timer_id:
  "timer_id (timerinfos (stopTimer i s) b) = timer_id (timerinfos s b)"
  by (simp add: stopTimer_def Let_def split: option.splits)

lemma registry_stopTimer:
  assumes ok: "registry_ok s"
  shows "registry_ok (stopTimer i s)"
proof -
  note p = stopTimer_next_addr stopTimer_registry stopTimer_canceled stopTimer_timer_id
  from ok have reg: "\<And>j a. m_list_timers s j = Some a \<Longrightarrow>
      a < next_addr s \<and> timer_id (timerinfos s a) = j \<and> \<not> canceled (timerinfos s a)"
    and live: "\<And>a. a < next_addr s \<Longrightarrow> \<not> canceled (timerinfos s a) \<Longrightarrow>
      m_list_timers s (timer_id (timerinfos s a)) = Some a"
    by (simp_all add: registry_ok_def)
  have 1: "a < next_addr (stopTimer i s) \<and> timer_id (timerinfos (stopTimer i s) a) = j
           \<and> \<not> canceled (timerinfos (stopTimer i s) a)"
    if "m_list_timers (stopTimer i s) j = Some a" for j a
  proof -
    from that have ji: "j \<noteq> i" and m: "m_list_timers s j = Some a"
      by (simp_all add: p split: if_splits)
    have "m_list_timers s i \<noteq> Some a"
    proof
      assume "m_list_timers s i = Some a"
      from reg[OF this] reg[OF m] ji show False by simp
    qed
    with reg[OF m] show ?thesis by (simp add: p)
  qed
  have 2: "m_list_timers (stopTimer i s) (timer_id (timerinfos (stopTimer i s) a)) = Some a"
    if "a < next_addr (stopTimer i s)" "\<not> canceled (timerinfos (stopTimer i s) a)" for a
  proof -
    from that have lt: "a < next_addr s" and nc: "\<not> canceled (timerinfos s a)"
      and ni: "m_list_timers s i \<noteq> Some a"
      by (simp_all add: p)
    from live[OF lt nc] have m: "m_list_timers s (timer_id (timerinfos s a)) = Some a" .
    with ni have "timer_id (timerinfos s a) \<noteq> i" by auto
    with m show ?thesis by (simp add: p)
  qed
  show ?thesis unfolding registry_ok_def using 1 2 by blast
qed

lemma registry_pop:
  "registry_ok (s\<lparr>m_asio_service := sv\<rparr>) = registry_ok s"
  by (simp add: registry_ok_def)

lemma registry_TimeoutHandler: "registry_ok s \<Longrightarrow> registry_ok (TimeoutHandler a ec s)"
  by (simp add: registry_ok_def TimeoutHandler_def Let_def split: option.splits)


lemma registry_exec_work: "registry_ok s \<Longrightarrow> registry_ok (exec_work w s)"
proof (cases w)
  case (TimeoutWork a ec)
  assume "registry_ok s"
  with TimeoutWork show ?thesis by (simp add: registry_TimeoutHandler)
next
  case (TaskWork n)
  assume "registry_ok s"
  with TaskWork show ?thesis by (simp add: registry_ok_def TaskHandler_def)
next
  case (EventWork ev)
  assume "registry_ok s"
  with EventWork show ?thesis by (cases ev) (simp_all add: registry_ok_def)
next
  case StopWork
  assume "registry_ok s"
  with StopWork show ?thesis by (simp add: registry_ok_def Stop_def Let_def unsetActiveThread_def)
qed

lemma registry_dispatch: "registry_ok s \<Longrightarrow> registry_ok (dispatch s)"
  unfolding dispatch_def
  by (simp split: list.splits add: registry_exec_work registry_pop)

lemma registry_step: "step s s' \<Longrightarrow> registry_ok s \<Longrightarrow> registry_ok s'"
proof (induction rule: step.induct)
  case (Start s n)
  then show ?case by (simp add: registry_ok_def Start_def Let_def setActiveThread_def)
next
  case (Run_begin s n)
  then show ?case
    by (simp add: registry_ok_def Run_begin_def split: outcome.splits)
next
  case (Run_end s)
  then show ?case by (simp add: registry_ok_def Run_end_def)
next
  case (Stop s)
  then show ?case by (simp add: registry_ok_def Stop_def Let_def unsetActiveThread_def)
next
  case (ProcessEvents s n)
  have "registry_ok (poll s)"
    by (rule poll_preserves[where P=registry_ok]) (simp_all add: registry_dispatch ProcessEvents)
  with ProcessEvents show ?case
    by (simp add: ProcessEvents_def split: outcome.splits)
next
  case (PostEvent s ev)
  then show ?case
    by (cases ev) (simp_all add: registry_startTimer registry_stopTimer post_def registry_pop)
next
  case (PostTask s n task)
  then show ?case by (simp add: registry_ok_def PostTask_def post_def)
next
  case (PostCallback s callback)
  then show ?case by (simp add: PostCallback_def post_def registry_pop)
next
  case (PostStopEvent s)
  then show ?case by (simp add: PostStopEvent_def post_def registry_pop)
next
  case (dispatch s)
  then show ?case by (rule registry_dispatch)
next
  case (expire a s)
  then show ?case by (simp add: registry_ok_def timer_expire_def)
next
  case (destroy s t)
  then show ?case by (simp add: registry_ok_def)
qed

lemma registry_reachable: "reachable s \<Longrightarrow> registry_ok s"
proof (induction rule: reachable.induct)
  case (init i tms mem)
  show ?case by (simp add: registry_ok_def EventLoop_def)
next
  case (step s s')
  then show ?case by (simp add: registry_step)
qed

lemma startTimer_new_entry:
  "timers s t = Some tm \<Longrightarrow>
   timerinfos (startTimer i t d r s) (next_addr s) =
     \<lparr>timer_id = i, timer = t, interval_ms = d, asio_timer = \<lparr>expiry = d, waits = 1\<rparr>,
      repeat = r, canceled = False\<rparr>"
  by (simp add: startTimer_def Let_def async_wait_def split: option.splits)

lemma startTimer_old_entry:
  "timers s t = Some tm \<Longrightarrow> m_list_timers s i = Some a \<Longrightarrow> a \<noteq> next_addr s \<Longrightarrow>
   waits (asio_timer (timerinfos (startTimer i t d r s) a)) = 0 \<and>
   log (startTimer i t d r s) = log s @ [Cancel a, Async_wait (next_addr s)] \<and>
   ready (m_asio_service (startTimer i t d r s)) =
     ready (m_asio_service s) @
       replicate (waits (asio_timer (timerinfos s a))) (TimeoutWork a operation_aborted) \<and>
   timers (startTimer i t d r s) t = Some (tm\<lparr>m_active := True\<rparr>)"
  by (simp add: startTimer_def Let_def async_wait_def cancel_def complete_waits_def)

lemma startTimer_flags:
  "m_started (startTimer i t d r s) = m_started s"
  "m_asio_work (startTimer i t d r s) = m_asio_work s"
  "m_thread_id (startTimer i t d r s) = m_thread_id s"
  "m_running (startTimer i t d r s) = m_running s"
  by (simp_all add: startTimer_def Let_def prim_defs split: option.splits)

subsection \<open>Cancelled entries stay cancelled\<close>

lemma retired_pop:
  "retired a (s\<lparr>m_asio_service := sv\<rparr>) = retired a s"
  by (simp add: retired_def)

lemma retired_exec_work: "retired a s \<Longrightarrow> retired a (exec_work w s)"
proof (cases w)
  case (TimeoutWork b ec)
  assume "retired a s"
  with TimeoutWork show ?thesis
    by (auto simp: retired_def prim_defs TimeoutHandler_def split: option.splits)
next
  case (TaskWork n)
  assume "retired a s"
  with TaskWork show ?thesis by (simp add: retired_def TaskHandler_def)
next
  case (EventWork ev)
  assume "retired a s"
  with EventWork show ?thesis by (cases ev) (simp_all add: retired_def)
next
  case StopWork
  assume "retired a s"
  with StopWork show ?thesis by (simp add: retired_def Stop_def Let_def unsetActiveThread_def)
qed

lemma retired_dispatch: "retired a s \<Longrightarrow> retired a (dispatch s)"
  unfolding dispatch_def
  by (simp split: list.splits add: retired_exec_work retired_pop)

lemma retired_step: "step s s' \<Longrightarrow> retired a s \<Longrightarrow> retired a s'"
proof (induction rule: step.induct)
  case (ProcessEvents s n)
  have "retired a (poll s)"
    by (rule poll_preserves[where P="retired a"]) (simp_all add: retired_dispatch ProcessEvents)
  with ProcessEvents show ?case
    by (simp add: ProcessEvents_def split: outcome.splits)
next
  case (PostEvent s ev)
  then show ?case
    by (cases ev) (auto simp: retired_def prim_defs op_defs split: option.splits)
next
  case (dispatch s)
  then show ?case by (rule retired_dispatch)
qed (auto simp: retired_def prim_defs op_defs split: option.splits)

lemma retired_steps: "step\<^sup>*\<^sup>* s s' \<Longrightarrow> retired a s \<Longrightarrow> retired a s'"
  by (induction rule: rtranclp_induct) (auto intro: retired_step)

lemma retired_noop: "retired a s \<Longrightarrow> TimeoutHandler a ec s = s"
  by (simp add: retired_def TimeoutHandler_def)

subsection \<open>The running flag\<close>

lemma m_running_exec_work: "m_running (exec_work w s) = m_running s"
proof (cases w)
  case (TimeoutWork a ec)
  then show ?thesis
    by (simp add: TimeoutHandler_def Let_def async_wait_def expires_from_now_def
        complete_waits_def split: option.splits)
next
  case (TaskWork n)
  then show ?thesis by (simp add: TaskHandler_def)
next
  case (EventWork ev)
  then show ?thesis by (cases ev) simp_all
next
  case StopWork
  then show ?thesis by (simp add: Stop_def Let_def unsetActiveThread_def)
qed

lemma m_running_dispatch: "m_running (dispatch s) = m_running s"
  by (simp add: dispatch_def m_running_exec_work split: list.splits)

lemma m_running_poll: "m_running s \<Longrightarrow> m_running (poll s)"
  by (rule poll_preserves[where P=m_running]) (simp_all add: m_running_dispatch)

lemma m_running_cleared:
  "step s s' \<Longrightarrow> m_running s \<Longrightarrow> \<not> m_running s' \<Longrightarrow> s' = Run_end s"
proof (induction rule: step.induct)
  case (ProcessEvents s n)
  then show ?case
    using m_running_poll[of s] by (simp add: ProcessEvents_def split: outcome.splits)
next
  case (PostEvent s ev)
  then show ?case
    by (cases ev)
      (simp_all add: startTimer_def stopTimer_def Let_def prim_defs split: option.splits)
next
  case (dispatch s)
  then show ?case by (simp add: m_running_dispatch)
next
  case (Run_end s)
  then show ?case by simp
qed (auto simp: prim_defs op_defs split: outcome.splits if_splits)

subsection \<open>The example loop\<close>

lemmas example_defs = loop0_def started0_def armed0_def armed1_def EventLoop_def app_timers_def
  mem0_def

lemma reachable_started0: "reachable started0"
  unfolding started0_def loop0_def by (rule reachable.step[OF reachable.init step.Start])

lemma reachable_armed0: "reachable armed0"
  unfolding armed0_def by (rule reachable.step[OF reachable_started0 step.PostEvent])

lemma reachable_armed1: "reachable armed1"
  unfolding armed1_def by (rule reachable.step[OF reachable_started0 step.PostEvent])

lemma started0_facts:
  "timers started0 7 = Some \<lparr>m_active = False\<rparr>" "next_addr started0 = 0"
  "m_list_timers started0 5 = None" "m_started started0" "m_thread_id started0 = thread 1"
  "log started0 = [Notify_all m_cv_started]" "\<not> m_running started0"
  "ready (m_asio_service started0) = []"
  by (simp_all add: example_defs Start_def Let_def setActiveThread_def)

lemma armed0_facts:
  "m_list_timers armed0 5 = Some 0"
  "timerinfos armed0 0 = \<lparr>timer_id = 5, timer = 7, interval_ms = 100,
       asio_timer = \<lparr>expiry = 100, waits = 1\<rparr>, repeat = True, canceled = False\<rparr>"
  "timers armed0 7 = Some \<lparr>m_active = True\<rparr>"
  "log armed0 = [Notify_all m_cv_started, Async_wait 0]"
  "next_addr armed0 = 1"
  by (simp_all add: armed0_def startTimer_def Let_def async_wait_def started0_facts)

lemma armed1_facts:
  "m_list_timers armed1 5 = Some 0"
  "timerinfos armed1 0 = \<lparr>timer_id = 5, timer = 7, interval_ms = 100,
       asio_timer = \<lparr>expiry = 100, waits = 1\<rparr>, repeat = False, canceled = False\<rparr>"
  "timers armed1 7 = Some \<lparr>m_active = True\<rparr>"
  "log armed1 = [Notify_all m_cv_started, Async_wait 0]"
  "next_addr armed1 = 1"
  by (simp_all add: armed1_def startTimer_def Let_def async_wait_def started0_facts)

lemma reachable_posted0: "reachable posted0"
  unfolding posted0_def by (rule reachable.step[OF reachable_started0 step.PostCallback])

lemma posted0_facts:
  "m_started posted0" "m_thread_id posted0 = thread 1" "m_asio_work posted0"
  "ready (m_asio_service posted0) = [EventWork (SlotEvent 3)]"
  "log posted0 = [Notify_all m_cv_started]"
  by (simp_all add: posted0_def PostCallback_def post_def example_defs Start_def Let_def
      setActiveThread_def)

lemma reachable_running0: "reachable running0"
  unfolding running0_def by (rule reachable.step[OF reachable_started0 step.Run_begin])

lemma running0_facts:
  "m_started running0" "m_running running0" "m_thread_id running0 = thread 1"
  by (simp_all add: running0_def Run_begin_def ensureActiveLoop_def ensureActiveThread_def
      example_defs Start_def Let_def setActiveThread_def)

lemma idle0_facts:
  "\<not> m_started idle0" "ready (m_asio_service idle0) = [EventWork (SlotEvent 3)]"
  by (simp_all add: idle0_def PostCallback_def post_def example_defs)

lemma armed_running0_facts:
  "m_running armed_running0" "m_list_timers armed_running0 5 = Some 0"
  "canceled (timerinfos armed_running0 0) = False"
  "waits (asio_timer (timerinfos armed_running0 0)) = 1"
proof -
  have "m_asio_work started0"
    by (simp add: example_defs Start_def Let_def setActiveThread_def)
  then have "m_started armed0 \<and> m_asio_work armed0 \<and> m_thread_id armed0 = thread 1"
    by (simp add: armed0_def startTimer_flags started0_facts)
  then show "m_running armed_running0" "m_list_timers armed_running0 5 = Some 0"
    "canceled (timerinfos armed_running0 0) = False"
    "waits (asio_timer (timerinfos armed_running0 0)) = 1"
    by (simp_all add: armed_running0_def Run_begin_def ensureActiveLoop_def
        ensureActiveThread_def armed0_facts)
qed

section \<open>The claims\<close>

text \<open>
  C1. Once \<open>stopTimer\<close> for a timer's id has returned, having set the entry's
  \<open>canceled\<close> flag, a fire callback for that entry that runs in any later state emits no
  timeout notification and changes nothing; the fire callback is a no-op whenever the wait
  reports cancellation or the entry's \<open>canceled\<close> flag is set.
\<close>
theorem stopTimer_silences_fire:
  assumes "reachable s" and "m_list_timers s i = Some a"
    and "step\<^sup>*\<^sup>* (stopTimer i s) s'"
  shows "canceled (timerinfos (stopTimer i s) a) \<and>
         TimeoutHandler a ec s' = s' \<and>
         log (TimeoutHandler a ec s') = log s' \<and>
         (e = operation_aborted \<or> canceled (timerinfos x b) \<longrightarrow> TimeoutHandler b e x = x)"
proof -
  from registry_reachable[OF assms(1)] assms(2) have "a < next_addr s"
    by (simp add: registry_ok_def)
  with assms(2) have r: "retired a (stopTimer i s)"
    by (simp add: retired_def stopTimer_next_addr stopTimer_canceled)
  from retired_steps[OF assms(3) r] have "TimeoutHandler a ec s' = s'"
    by (rule retired_noop)
  moreover from r have "canceled (timerinfos (stopTimer i s) a)"
    by (simp add: retired_def)
  moreover have "e = operation_aborted \<or> canceled (timerinfos x b) \<longrightarrow> TimeoutHandler b e x = x"
    by (auto simp: TimeoutHandler_def)
  ultimately show ?thesis by simp
qed

theorem stopTimer_silences_fire_witness:
  "reachable armed0 \<and> m_list_timers armed0 5 = Some 0 \<and>
   step\<^sup>*\<^sup>* (stopTimer 5 armed0) (timer_expire 0 (dispatch (stopTimer 5 armed0))) \<and>
   canceled (timerinfos (stopTimer 5 armed0) 0) \<and>
   TimeoutHandler 0 success (timer_expire 0 (dispatch (stopTimer 5 armed0))) =
     timer_expire 0 (dispatch (stopTimer 5 armed0)) \<and>
   TimeoutHandler 0 operation_aborted armed0 = armed0"
proof -
  have "retired 0 (stopTimer 5 armed0)"
    by (simp add: retired_def stopTimer_canceled stopTimer_next_addr armed0_facts)
  then have "retired 0 (dispatch (stopTimer 5 armed0))"
    by (rule retired_dispatch)
  then have n: "0 < next_addr (dispatch (stopTimer 5 armed0))"
    by (simp add: retired_def)
  have st: "step\<^sup>*\<^sup>* (stopTimer 5 armed0) (timer_expire 0 (dispatch (stopTimer 5 armed0)))"
    using step.dispatch[of "stopTimer 5 armed0"] step.expire[OF n] by simp
  from stopTimer_silences_fire[OF reachable_armed0 armed0_facts(1) st,
      of success operation_aborted armed0 0]
  show ?thesis using reachable_armed0 armed0_facts(1) st by simp
qed

text \<open>
  C2. When a timer entry fires (the wait was not cancelled, the entry is not cancelled and the
  owner is alive): a repeating entry is re-armed for its interval and waits again before the
  notification is emitted; a single-shot entry marks its logical timer inactive; either way
  the owner's timeout notification is emitted exactly once.
\<close>
theorem TimeoutHandler_fires:
  assumes "ec \<noteq> operation_aborted" and "\<not> canceled (timerinfos s a)"
    and "timers s (timer (timerinfos s a)) = Some tm"
  shows "let ti = timerinfos s a; s' = TimeoutHandler a ec s
         in (repeat ti \<longrightarrow>
               log s' = log s @ [Expires_from_now a (interval_ms ti), Async_wait a, Emit (timer ti)] \<and>
               asio_timer (timerinfos s' a) = \<lparr>expiry = interval_ms ti, waits = 1\<rparr> \<and>
               timers s' = timers s) \<and>
            (\<not> repeat ti \<longrightarrow>
               log s' = log s @ [Emit (timer ti)] \<and>
               timers s' = (timers s)(timer ti \<mapsto> tm\<lparr>m_active := False\<rparr>) \<and>
               timerinfos s' = timerinfos s) \<and>
            count_list (log s') (Emit (timer ti)) = Suc (count_list (log s) (Emit (timer ti)))"
  using assms
  by (simp add: TimeoutHandler_def Let_def async_wait_def expires_from_now_def complete_waits_def)

theorem TimeoutHandler_fires_witness:
  "success \<noteq> operation_aborted \<and> \<not> canceled (timerinfos armed0 0) \<and>
   timers armed0 (timer (timerinfos armed0 0)) = Some \<lparr>m_active = True\<rparr> \<and>
   repeat (timerinfos armed0 0) \<and>
   log (TimeoutHandler 0 success armed0) =
     [Notify_all m_cv_started, Async_wait 0, Expires_from_now 0 100, Async_wait 0, Emit 7] \<and>
   asio_timer (timerinfos (TimeoutHandler 0 success armed0) 0) = \<lparr>expiry = 100, waits = 1\<rparr> \<and>
   \<not> canceled (timerinfos armed1 0) \<and>
   timers armed1 (timer (timerinfos armed1 0)) = Some \<lparr>m_active = True\<rparr> \<and>
   \<not> repeat (timerinfos armed1 0) \<and>
   log (TimeoutHandler 0 success armed1) = [Notify_all m_cv_started, Async_wait 0, Emit 7] \<and>
   timers (TimeoutHandler 0 success armed1) 7 = Some \<lparr>m_active = False\<rparr>"
proof -
  have h0: "success \<noteq> operation_aborted" by simp
  have c0: "\<not> canceled (timerinfos armed0 0)" by (simp add: armed0_facts)
  have t0: "timers armed0 (timer (timerinfos armed0 0)) = Some \<lparr>m_active = True\<rparr>"
    by (simp add: armed0_facts)
  have c1: "\<not> canceled (timerinfos armed1 0)" by (simp add: armed1_facts)
  have t1: "timers armed1 (timer (timerinfos armed1 0)) = Some \<lparr>m_active = True\<rparr>"
    by (simp add: armed1_facts)
  from TimeoutHandler_fires[OF h0 c0 t0] TimeoutHandler_fires[OF h0 c1 t1] c0 t0 c1 t1
  show ?thesis by (simp add: Let_def armed0_facts armed1_facts)
qed

text \<open>
  C3. \<open>startTimer\<close> with a live owner for an id that has an entry cancels the old
  entry's handle, sets its \<open>canceled\<close> flag and erases it, and inserts a fresh armed entry
  with the new interval and repeat flag: the registry then holds the new entry for the id, the
  new entry is the only uncancelled one with that id, and the old one never fires again.
\<close>
theorem startTimer_replaces:
  assumes "reachable s" and "timers s t = Some tm" and "m_list_timers s i = Some a"
  shows "let s' = startTimer i t d r s; a' = next_addr s
         in m_list_timers s' i = Some a' \<and> a' \<noteq> a \<and>
            timerinfos s' a' =
              \<lparr>timer_id = i, timer = t, interval_ms = d, asio_timer = \<lparr>expiry = d, waits = 1\<rparr>,
               repeat = r, canceled = False\<rparr> \<and>
            log s' = log s @ [Cancel a, Async_wait a'] \<and>
            waits (asio_timer (timerinfos s' a)) = 0 \<and>
            canceled (timerinfos s' a) \<and>
            (\<forall>j. m_list_timers s' j \<noteq> Some a) \<and>
            (\<forall>b. b < next_addr s' \<and> timer_id (timerinfos s' b) = i \<and>
                 \<not> canceled (timerinfos s' b) \<longrightarrow> b = a') \<and>
            (\<forall>s'' ec. step\<^sup>*\<^sup>* s' s'' \<longrightarrow> TimeoutHandler a ec s'' = s'')"
proof -
  let ?s' = "startTimer i t d r s"
  from registry_reachable[OF assms(1)] assms(3) have lt: "a < next_addr s"
    by (simp add: registry_ok_def)
  then have ne: "next_addr s \<noteq> a" by simp
  have "reachable (PostEvent (StartTimerEvent i t d r) s)"
    by (rule reachable.step[OF assms(1) step.PostEvent])
  then have ok': "registry_ok ?s'" using registry_reachable by simp
  have reg: "m_list_timers ?s' i = Some (next_addr s)"
    by (simp add: startTimer_registry[OF assms(2)])
  have can: "canceled (timerinfos ?s' a)"
    using assms(3) ne by (simp add: startTimer_canceled[OF assms(2)])
  have gone: "m_list_timers ?s' j \<noteq> Some a" for j
    using ok' can by (auto simp: registry_ok_def)
  have one: "b = next_addr s"
    if "b < next_addr ?s' \<and> timer_id (timerinfos ?s' b) = i \<and> \<not> canceled (timerinfos ?s' b)" for b
  proof -
    from ok' that have "m_list_timers ?s' (timer_id (timerinfos ?s' b)) = Some b"
      unfolding registry_ok_def by blast
    with that reg show ?thesis by simp
  qed
  have ret: "retired a ?s'"
    using can lt by (simp add: retired_def startTimer_next_addr[OF assms(2)])
  have never: "TimeoutHandler a ec s'' = s''" if "step\<^sup>*\<^sup>* ?s' s''" for s'' ec
    by (rule retired_noop[OF retired_steps[OF that ret]])
  from startTimer_old_entry[OF assms(2,3), of d r] ne
  have old: "waits (asio_timer (timerinfos ?s' a)) = 0"
    "log ?s' = log s @ [Cancel a, Async_wait (next_addr s)]"
    by simp_all
  show ?thesis
    unfolding Let_def
    using reg ne startTimer_new_entry[OF assms(2), of i d r] old can gone one never
    by blast
qed

theorem startTimer_replaces_witness:
  "reachable armed0 \<and> timers armed0 7 = Some \<lparr>m_active = True\<rparr> \<and>
   m_list_timers armed0 5 = Some 0 \<and>
   m_list_timers (startTimer 5 7 500 True armed0) 5 = Some 1 \<and>
   interval_ms (timerinfos (startTimer 5 7 500 True armed0) 1) = 500 \<and>
   canceled (timerinfos (startTimer 5 7 500 True armed0) 0) \<and>
   TimeoutHandler 0 success (startTimer 5 7 500 True armed0) = startTimer 5 7 500 True armed0"
proof -
  from startTimer_replaces[OF reachable_armed0 armed0_facts(3) armed0_facts(1), of 500 True]
  show ?thesis
    using reachable_armed0 armed0_facts(3) armed0_facts(1)
    by (simp add: Let_def armed0_facts)
qed

text \<open>
  C4. On a started loop, \<open>Run\<close> and \<open>ProcessEvents\<close> called from a thread other than
  the owning thread throw the fatal \<open>EventLoopCalledFromWrongThread\<close>; no queued work runs
  and the state is unchanged.
\<close>
theorem wrong_thread_raises:
  assumes "reachable s" and "m_started s" and "c \<noteq> m_thread_id s"
  shows "Run_begin c s = (Threw EventLoopCalledFromWrongThread, s) \<and>
         ProcessEvents c s = (Threw EventLoopCalledFromWrongThread, s) \<and>
         level EventLoopCalledFromWrongThread = FATAL"
proof -
  from keepalive_reachable[OF assms(1)] assms(2) have "m_asio_work s"
    by (simp add: keepalive_ok_def)
  with assms(2,3) show ?thesis
    by (auto simp: Run_begin_def ProcessEvents_def ensureActiveLoop_def ensureActiveThread_def)
qed

theorem wrong_thread_raises_witness:
  "reachable posted0 \<and> m_started posted0 \<and> thread 2 \<noteq> m_thread_id posted0 \<and>
   ready (m_asio_service posted0) = [EventWork (SlotEvent 3)] \<and>
   Run_begin (thread 2) posted0 = (Threw EventLoopCalledFromWrongThread, posted0) \<and>
   ProcessEvents (thread 2) posted0 = (Threw EventLoopCalledFromWrongThread, posted0)"
proof -
  have ne: "thread 2 \<noteq> m_thread_id posted0" by (simp add: posted0_facts)
  from wrong_thread_raises[OF reachable_posted0 posted0_facts(1) ne]
  show ?thesis using reachable_posted0 ne by (simp add: posted0_facts)
qed

text \<open>
  C5, as stated, fails: after \<open>Start\<close> and the first section of \<open>Run\<close>, a \<open>Stop\<close>
  leaves the loop running but not started.
\<close>
theorem running_without_started_counterexample:
  "reachable (Stop (snd (Run_begin (thread 1) (Start (thread 1) loop0)))) \<and>
   m_running (Stop (snd (Run_begin (thread 1) (Start (thread 1) loop0)))) \<and>
   \<not> m_started (Stop (snd (Run_begin (thread 1) (Start (thread 1) loop0))))"
proof -
  have "reachable (Stop running0)"
    by (rule reachable.step[OF reachable_running0 step.Stop])
  moreover have "m_running (Stop running0)" "\<not> m_started (Stop running0)"
    by (simp_all add: Stop_def Let_def unsetActiveThread_def running0_facts)
  ultimately show ?thesis by (simp add: running0_def started0_def)
qed

text \<open>
  C5, amended. In every reachable state a running loop is started or its service is stopped
  (\<open>Stop\<close> has run and the last section of \<open>Run\<close> has not yet cleared the flag);
  \<open>Run\<close> sets the running flag only on a started loop, and changes nothing when it throws.
\<close>
theorem running_started_or_stopped:
  assumes "reachable s" and "m_running s"
  shows "(m_started s \<or> stopped (m_asio_service s)) \<and>
         (fst (Run_begin c x) = Returned \<longrightarrow>
            m_started x \<and> snd (Run_begin c x) =
              x\<lparr>m_running := True, log := log x @ [Notify_all m_cv_running]\<rparr>) \<and>
         (fst (Run_begin c x) \<noteq> Returned \<longrightarrow> snd (Run_begin c x) = x)"
proof -
  from running_reachable[OF assms(1)] assms(2)
  have "m_started s \<or> stopped (m_asio_service s)" by (simp add: running_ok_def)
  then show ?thesis
    by (auto simp: Run_begin_def ensureActiveLoop_def ensureActiveThread_def)
qed

theorem running_started_or_stopped_witness:
  "reachable (Stop running0) \<and> m_running (Stop running0) \<and>
   \<not> m_started (Stop running0) \<and> stopped (m_asio_service (Stop running0)) \<and>
   fst (Run_begin (thread 1) started0) = Returned \<and> m_started started0 \<and>
   fst (Run_begin (thread 1) loop0) \<noteq> Returned \<and> snd (Run_begin (thread 1) loop0) = loop0"
proof -
  have r: "reachable (Stop running0)"
    by (rule reachable.step[OF reachable_running0 step.Stop])
  have m: "m_running (Stop running0)" "\<not> m_started (Stop running0)"
    by (simp_all add: Stop_def Let_def unsetActiveThread_def running0_facts)
  have b: "fst (Run_begin (thread 1) started0) = Returned"
    "fst (Run_begin (thread 1) loop0) \<noteq> Returned"
    by (simp_all add: Run_begin_def ensureActiveLoop_def ensureActiveThread_def example_defs
        Start_def Let_def setActiveThread_def)
  from running_started_or_stopped[OF r m(1), of "thread 1" started0]
    running_started_or_stopped[OF r m(1), of "thread 1" loop0]
  show ?thesis using r m b by simp
qed

text \<open>
  C6. \<open>PostTask\<close> from the thread recorded as the owning thread invokes the task in place
  and queues nothing; from any other thread it invokes nothing and queues the task, which the
  service invokes when it runs the queued handler.
\<close>
theorem PostTask_same_thread_or_queue:
  "(c = m_thread_id s \<longrightarrow>
      PostTask c task s = s\<lparr>log := log s @ [Invoke_task task]\<rparr> \<and>
      ready (m_asio_service (PostTask c task s)) = ready (m_asio_service s)) \<and>
   (c \<noteq> m_thread_id s \<longrightarrow>
      PostTask c task s =
        s\<lparr>m_asio_service := (m_asio_service s)\<lparr>ready := ready (m_asio_service s) @ [TaskWork task]\<rparr>\<rparr> \<and>
      log (PostTask c task s) = log s) \<and>
   log (exec_work (TaskWork task) x) = log x @ [Invoke_task task]"
  by (simp add: PostTask_def GetThreadId_def post_def TaskHandler_def)

theorem PostTask_same_thread_or_queue_witness:
  "thread 1 = m_thread_id started0 \<and>
   log (PostTask (thread 1) 9 started0) = [Notify_all m_cv_started, Invoke_task 9] \<and>
   ready (m_asio_service (PostTask (thread 1) 9 started0)) = [] \<and>
   thread 2 \<noteq> m_thread_id started0 \<and>
   log (PostTask (thread 2) 9 started0) = [Notify_all m_cv_started] \<and>
   ready (m_asio_service (PostTask (thread 2) 9 started0)) = [TaskWork 9]"
  using PostTask_same_thread_or_queue[of "thread 1" started0 9 started0]
    PostTask_same_thread_or_queue[of "thread 2" started0 9 started0]
  by (simp add: started0_facts)

text \<open>
  C7. \<open>Start\<close> on a started loop changes nothing. On a stopped loop it resets the
  service, installs one keep-alive token, records the calling thread, sets the started flag
  and notifies the waiters for the start. A second \<open>Start\<close> in a row changes nothing.
\<close>
theorem Start_once:
  assumes "reachable s"
  shows "(m_started s \<longrightarrow> Start c s = s) \<and>
         (\<not> m_started s \<longrightarrow>
            Start c s =
              s\<lparr>m_asio_service := (m_asio_service s)\<lparr>stopped := False, work_tokens := 1\<rparr>,
                m_asio_work := True, m_thread_id := c, m_started := True,
                log := log s @ [Notify_all m_cv_started]\<rparr>) \<and>
         Start c' (Start c s) = Start c s \<and> GetStarted (Start c' (Start c s))"
proof -
  from keepalive_reachable[OF assms]
  have k: "m_started s = m_asio_work s"
    "work_tokens (m_asio_service s) = (if m_asio_work s then 1 else 0)"
    by (simp_all add: keepalive_ok_def)
  have 1: "m_started s \<longrightarrow> Start c s = s" by (simp add: Start_def)
  have 2: "\<not> m_started s \<longrightarrow>
            Start c s =
              s\<lparr>m_asio_service := (m_asio_service s)\<lparr>stopped := False, work_tokens := 1\<rparr>,
                m_asio_work := True, m_thread_id := c, m_started := True,
                log := log s @ [Notify_all m_cv_started]\<rparr>"
    using k by (simp add: Start_def Let_def setActiveThread_def)
  have "m_started (Start c s)" by (simp add: Start_def Let_def setActiveThread_def k)
  then have 3: "Start c' (Start c s) = Start c s \<and> GetStarted (Start c' (Start c s))"
    by (simp add: Start_def[of c'] GetStarted_def)
  from 1 2 3 show ?thesis by blast
qed

theorem Start_once_witness:
  "reachable loop0 \<and> \<not> m_started loop0 \<and>
   m_started (Start (thread 1) loop0) \<and> m_thread_id (Start (thread 1) loop0) = thread 1 \<and>
   work_tokens (m_asio_service (Start (thread 1) loop0)) = 1 \<and>
   log (Start (thread 1) loop0) = [Notify_all m_cv_started] \<and>
   reachable started0 \<and> m_started started0 \<and>
   Start (thread 2) started0 = started0 \<and> m_thread_id (Start (thread 2) started0) = thread 1"
proof -
  have r: "reachable loop0" unfolding loop0_def by (rule reachable.init)
  have n: "\<not> m_started loop0" "log loop0 = []" by (simp_all add: example_defs)
  from Start_once[OF r, of "thread 1"] Start_once[OF reachable_started0, of "thread 2"]
  show ?thesis using r n reachable_started0 by (simp add: started0_facts)
qed

text \<open>
  C8. A \<open>StartTimer\<close> request whose owner is gone is discarded: the state, and with it
  any entry armed for the same id, is exactly as before.
\<close>
theorem startTimer_dead_owner:
  assumes "timers s t = None"
  shows "startTimer i t d r s = s \<and> PostEvent (StartTimerEvent i t d r) s = s"
  using assms by (simp add: startTimer_def)

theorem startTimer_dead_owner_witness:
  "timers armed0 8 = None \<and> m_list_timers armed0 5 = Some 0 \<and>
   startTimer 5 8 500 False armed0 = armed0 \<and>
   PostEvent (StartTimerEvent 5 8 500 False) armed0 = armed0"
proof -
  have h: "timers armed0 8 = None"
    by (simp add: armed0_def startTimer_def Let_def async_wait_def started0_facts
        started0_def Start_def setActiveThread_def loop0_def EventLoop_def app_timers_def)
  from startTimer_dead_owner[OF h] show ?thesis using h by (simp add: armed0_facts)
qed

text \<open>
  C9. \<open>Run\<close> and \<open>ProcessEvents\<close> on a loop without the started flag or without the
  keep-alive token throw the warning \<open>EventLoopInactive\<close>; no queued work runs.
\<close>
theorem inactive_loop_raises:
  assumes "\<not> m_started s \<or> \<not> m_asio_work s"
  shows "Run_begin c s = (Threw EventLoopInactive, s) \<and>
         ProcessEvents c s = (Threw EventLoopInactive, s) \<and>
         level EventLoopInactive = WARN"
  using assms by (auto simp: Run_begin_def ProcessEvents_def ensureActiveLoop_def)

theorem inactive_loop_raises_witness:
  "\<not> m_started idle0 \<and>
   ready (m_asio_service idle0) = [EventWork (SlotEvent 3)] \<and>
   Run_begin (thread 1) idle0 = (Threw EventLoopInactive, idle0) \<and>
   ProcessEvents (thread 1) idle0 = (Threw EventLoopInactive, idle0)"
proof -
  have h: "\<not> m_started idle0 \<or> \<not> m_asio_work idle0" by (simp add: idle0_facts)
  from inactive_loop_raises[OF h] show ?thesis by (simp add: idle0_facts)
qed

text \<open>
  C10. \<open>Stop\<close> writes the keep-alive token, the stopped condition of the service, the
  owning thread (the null sentinel) and the started flag, and notifies the waiters for the
  stop; the running flag, the registry, the timer entries and the queue are as before. Only
  the last section of \<open>Run\<close> clears the running flag.
\<close>
theorem Stop_frame:
  "Stop s =
     s\<lparr>m_asio_service := (m_asio_service s)
          \<lparr>stopped := True,
           work_tokens := (if m_asio_work s then work_tokens (m_asio_service s) - 1
                           else work_tokens (m_asio_service s))\<rparr>,
       m_asio_work := False, m_thread_id := m_thread_id_null, m_started := False,
       log := log s @ [Notify_all m_cv_stopped]\<rparr> \<and>
   m_running (Stop s) = m_running s \<and> GetRunning (Stop s) = GetRunning s \<and>
   m_list_timers (Stop s) = m_list_timers s \<and> timerinfos (Stop s) = timerinfos s \<and>
   ready (m_asio_service (Stop s)) = ready (m_asio_service s) \<and>
   timers (Stop s) = timers s \<and> m_id (Stop s) = m_id s \<and> next_addr (Stop s) = next_addr s \<and>
   m_thread_id (Stop s) = no_thread \<and>
   (step x x' \<and> m_running x \<and> \<not> m_running x' \<longrightarrow> x' = Run_end x)"
  using m_running_cleared[of x x']
  by (simp add: Stop_def Let_def unsetActiveThread_def GetRunning_def m_thread_id_null_def)

theorem Stop_frame_witness:
  "m_running armed_running0 \<and> GetRunning (Stop armed_running0) \<and>
   \<not> m_started (Stop armed_running0) \<and>
   m_list_timers (Stop armed_running0) 5 = Some 0 \<and>
   \<not> canceled (timerinfos (Stop armed_running0) 0) \<and>
   waits (asio_timer (timerinfos (Stop armed_running0) 0)) = 1 \<and>
   step armed_running0 (Run_end armed_running0) \<and> \<not> m_running (Run_end armed_running0)"
proof -
  have "m_started (Stop armed_running0) = False"
    by (subst conjunct1[OF Stop_frame[of armed_running0 armed_running0 armed_running0]]) simp
  then show ?thesis
    using Stop_frame[of armed_running0 armed_running0 armed_running0]
      step.Run_end[of armed_running0]
    by (simp add: armed_running0_facts GetRunning_def Run_end_def)
qed

end
